theory Spec2Isabelle
  imports Main "HOL-Library.Char_ord" "HOL-Library.List_Lexorder"
begin

section \<open>The service catalogue of the K8s service loader\<close>

text \<open>
  The development embeds \<^verbatim>\<open>getServicesMap\<close> of \<^verbatim>\<open>src/extension.ts\<close> and the two
  reads that \<^verbatim>\<open>activate\<close> makes of its result (the sorted list of keys and the
  lookup of a service and an environment).

  Text is a \<^typ>\<open>string\<close>; a character stands for one UTF-16 code unit in the range
  U+0000 .. U+00FF, so the white space of the source (\<^verbatim>\<open>trim\<close>, \<^verbatim>\<open>\s\<close>) is
  the seven code units below. JavaScript's \<^verbatim>\<open>undefined\<close> is \<open>None\<close>; a thrown
  exception is a value of the result.
\<close>

subsection \<open>Values and outcomes\<close>

datatype js_error = TypeError | SyntaxError

text \<open>
  \<open>Returns\<close> and \<open>Throws\<close> are the two ways a call ends. \<open>Unmodelled\<close> marks a
  call that builds a regular expression outside the fragment interpreted in
  \<open>replace_namespace\<close> below; nothing is stated about such a call.
\<close>

datatype 'a outcome = Returns 'a | Throws js_error | Unmodelled

text \<open>The object literal \<^verbatim>\<open>{ id: serviceId, namespace: namespaceColumn }\<close>.\<close>

record service_details =
  details_id :: string
  details_namespace :: "string option"

text \<open>
  The value stored under a service name is an object whose properties are environment
  names; the \<^verbatim>\<open>Map\<close> itself keeps its keys in insertion order.
\<close>

type_synonym env_bindings = "string \<rightharpoonup> service_details"
type_synonym services_map = "(string \<times> env_bindings) list"

subsection \<open>String primitives\<close>

definition is_ws :: "char \<Rightarrow> bool" where
  "is_ws c \<longleftrightarrow> c \<in> set [CHR 0x09, CHR 0x0A, CHR 0x0B, CHR 0x0C, CHR 0x0D, CHR 0x20, CHR 0xA0]"

definition trim :: "string \<Rightarrow> string" where
  "trim s = rev (dropWhile is_ws (rev (dropWhile is_ws s)))"

definition startsWith :: "string \<Rightarrow> string \<Rightarrow> bool" where
  "startsWith s p \<longleftrightarrow> take (length p) s = p"

text \<open>
  \<^verbatim>\<open>s.split(d)\<close> for a one-character separator: the result is never empty, and an
  empty piece stands between two adjacent separators and at either end. The \<open>[]\<close>
  branch of the inner case is never taken.
\<close>

fun split_on :: "char \<Rightarrow> string \<Rightarrow> string list" where
  "split_on d [] = [[]]"
| "split_on d (c # cs) =
     (if c = d then [] # split_on d cs
      else (case split_on d cs of t # ts \<Rightarrow> (c # t) # ts | [] \<Rightarrow> [[c]]))"

text \<open>
  \<^verbatim>\<open>s.split(/\s+/)\<close>: a run of white space is one separator, leading white space
  gives an empty first piece and trailing white space an empty last piece.
\<close>

function split_ws :: "string \<Rightarrow> string list" where
  "split_ws [] = [[]]"
| "split_ws (c # cs) =
     (if is_ws c then [] # split_ws (dropWhile is_ws cs)
      else (case split_ws cs of t # ts \<Rightarrow> (c # t) # ts | [] \<Rightarrow> [[c]]))"
  by pat_completeness auto
termination
  by (relation "measure length") (auto simp: less_Suc_eq_le length_dropWhile_le)

text \<open>\<^verbatim>\<open>parts.join(sep)\<close>.\<close>

fun join :: "string \<Rightarrow> string list \<Rightarrow> string" where
  "join sep [] = []"
| "join sep [p] = p"
| "join sep (p # q # ps) = p @ sep @ join sep (q # ps)"

subsection \<open>Array primitives\<close>

text \<open>\<^verbatim>\<open>xs.indexOf(x)\<close>; the result \<^verbatim>\<open>-1\<close> is \<open>None\<close>.\<close>

fun indexOf :: "'a list \<Rightarrow> 'a \<Rightarrow> nat option" where
  "indexOf [] x = None"
| "indexOf (y # ys) x = (if y = x then Some 0 else map_option Suc (indexOf ys x))"

text \<open>
  \<^verbatim>\<open>xs[i]\<close> for an index that \<^verbatim>\<open>indexOf\<close> returned: \<^verbatim>\<open>undefined\<close> at
  \<^verbatim>\<open>-1\<close> and past the end.
\<close>

fun at :: "'a list \<Rightarrow> nat option \<Rightarrow> 'a option" where
  "at xs None = None"
| "at xs (Some i) = (if i < length xs then Some (xs ! i) else None)"

subsection \<open>The Map of services\<close>

text \<open>\<^verbatim>\<open>Map.prototype.set\<close>: an existing key keeps its place, a new key goes last.\<close>

fun map_set :: "services_map \<Rightarrow> string \<Rightarrow> env_bindings \<Rightarrow> services_map" where
  "map_set [] k v = [(k, v)]"
| "map_set ((k', v') # m) k v = (if k' = k then (k, v) # m else (k', v') # map_set m k v)"

definition map_has :: "services_map \<Rightarrow> string \<Rightarrow> bool" where
  "map_has m k \<longleftrightarrow> map_of m k \<noteq> None"

text \<open>
  Lines 278 to 284: create the empty object on the first write, then assign the
  property \<open>envPrefix\<close> of the stored object. The key is present after the first
  step, so the \<open>None\<close> branch is never taken.
\<close>

definition store :: "services_map \<Rightarrow> string \<Rightarrow> string \<Rightarrow> service_details \<Rightarrow> services_map" where
  "store servicesMap serviceName envPrefix d =
     (let m1 = (if \<not> map_has servicesMap serviceName
                then map_set servicesMap serviceName Map.empty else servicesMap)
      in case map_of m1 serviceName of
           Some obj \<Rightarrow> map_set m1 serviceName (obj(envPrefix \<mapsto> d))
         | None \<Rightarrow> m1)"

subsection \<open>Stripping the environment and the namespace\<close>

definition env_prefix :: "string \<Rightarrow> string option" where
  "env_prefix nameColumn =
     (if startsWith nameColumn ''dev-'' then Some ''dev''
      else if startsWith nameColumn ''qa-'' then Some ''qa''
      else if startsWith nameColumn ''stg-'' then Some ''stg''
      else None)"

text \<open>\<^verbatim>\<open>nameColumn.replace(/^(dev-|qa-|stg-)/, "")\<close>.\<close>

definition strip_env :: "string \<Rightarrow> string" where
  "strip_env nameColumn =
     (if startsWith nameColumn ''dev-'' then drop 4 nameColumn
      else if startsWith nameColumn ''qa-'' then drop 3 nameColumn
      else if startsWith nameColumn ''stg-'' then drop 4 nameColumn
      else nameColumn)"

text \<open>
  The characters with a meaning of their own in the pattern of a regular expression.
  Every other character, the dash included, matches itself.
\<close>

definition regexp_syntax_char :: "char \<Rightarrow> bool" where
  "regexp_syntax_char c \<longleftrightarrow>
     c \<in> set [CHR 0x5C, CHR ''^'', CHR ''$'', CHR ''.'', CHR ''*'', CHR ''+'', CHR ''?'',
              CHR ''('', CHR '')'', CHR ''['', CHR '']'', CHR ''{'', CHR ''}'', CHR ''|'']"

text \<open>
  Matching a pattern of ordinary characters and dots at the start of a subject: the
  rest of the subject when it matches. A dot matches every character but a line
  terminator.
\<close>

fun match_start :: "string \<Rightarrow> string \<Rightarrow> string option" where
  "match_start [] s = Some s"
| "match_start (p # ps) [] = None"
| "match_start (p # ps) (c # cs) =
     (if (if p = CHR ''.'' then c \<noteq> CHR 0x0A \<and> c \<noteq> CHR 0x0D else p = c)
      then match_start ps cs else None)"

text \<open>
  \<^verbatim>\<open>modifiedName.replace(new RegExp(`^${namespaceColumn}-`, "g"), "")\<close>.
  The namespace is pasted into the pattern as it is. Three cases are interpreted.
  \<^item> No character of the namespace but the dot has a meaning in a pattern: the
    pattern is anchored at the start of the subject and has no multiline flag, so
    the global replacement removes one match at index 0 or nothing.
  \<^item> The first such character is a closing parenthesis: no group is open, and the
    constructor throws a \<^verbatim>\<open>SyntaxError\<close>.
  \<^item> Every other pattern is outside the model.
\<close>

definition replace_namespace :: "string \<Rightarrow> string \<Rightarrow> string outcome" where
  "replace_namespace namespaceColumn modifiedName =
     (case filter (\<lambda>c. regexp_syntax_char c \<and> c \<noteq> CHR ''.'') namespaceColumn of
        [] \<Rightarrow> (case match_start (namespaceColumn @ ''-'') modifiedName of
                 Some rest \<Rightarrow> Returns rest
               | None \<Rightarrow> Returns modifiedName)
      | c # _ \<Rightarrow> (if c = CHR '')'' then Throws SyntaxError else Unmodelled))"

text \<open>
  Lines 265 to 271. An \<^verbatim>\<open>undefined\<close> and an empty namespace are falsy: the name
  is left as it is.
\<close>

definition strip_namespace :: "string option \<Rightarrow> string \<Rightarrow> string outcome" where
  "strip_namespace namespaceColumn modifiedName =
     (case namespaceColumn of
        None \<Rightarrow> Returns modifiedName
      | Some n \<Rightarrow> (if n = [] then Returns modifiedName else replace_namespace n modifiedName))"

subsection \<open>The loop of getServicesMap\<close>

text \<open>
  The body of the loop from line 251 on, for the two cells read at lines 248 and 249.
  \<^verbatim>\<open>nameColumn.startsWith\<close> on an \<^verbatim>\<open>undefined\<close> cell throws a \<^verbatim>\<open>TypeError\<close>.
\<close>

definition row_step ::
  "services_map \<Rightarrow> string option \<Rightarrow> string option \<Rightarrow> services_map outcome" where
  "row_step servicesMap namespaceColumn nameColumn =
     (case nameColumn of
        None \<Rightarrow> Throws TypeError
      | Some name \<Rightarrow>
          (case env_prefix name of
             None \<Rightarrow> Returns servicesMap
           | Some envPrefix \<Rightarrow>
               (case strip_namespace namespaceColumn (strip_env name) of
                  Throws e \<Rightarrow> Throws e
                | Unmodelled \<Rightarrow> Unmodelled
                | Returns modifiedName \<Rightarrow>
                    (let parts = split_on CHR ''-'' modifiedName in
                     if length parts > 2 then
                       Returns (store servicesMap
                         (join ''-'' (take (length parts - 2) parts)) envPrefix
                         \<lparr>details_id = join ''-'' (drop (length parts - 2) parts),
                          details_namespace = namespaceColumn\<rparr>)
                     else Returns servicesMap))))"

text \<open>Lines 247 to 249: the cells of one line.\<close>

definition line_step ::
  "string option \<Rightarrow> nat option \<Rightarrow> nat option \<Rightarrow> services_map \<Rightarrow> string
     \<Rightarrow> services_map outcome" where
  "line_step namespace namespaceIndex nameIndex servicesMap line =
     (let columns = split_ws line;
          namespaceColumn = (case namespace of Some n \<Rightarrow> Some n
                             | None \<Rightarrow> at columns namespaceIndex);
          nameColumn = at columns nameIndex
      in row_step servicesMap namespaceColumn nameColumn)"

text \<open>The \<^verbatim>\<open>for\<close> loop over the lines after the first; an exception ends it.\<close>

fun process_lines ::
  "string option \<Rightarrow> nat option \<Rightarrow> nat option \<Rightarrow> services_map \<Rightarrow> string list
     \<Rightarrow> services_map outcome" where
  "process_lines namespace namespaceIndex nameIndex servicesMap [] = Returns servicesMap"
| "process_lines namespace namespaceIndex nameIndex servicesMap (l # ls) =
     (case line_step namespace namespaceIndex nameIndex servicesMap l of
        Returns m \<Rightarrow> process_lines namespace namespaceIndex nameIndex m ls
      | Throws e \<Rightarrow> Throws e
      | Unmodelled \<Rightarrow> Unmodelled)"

text \<open>
  \<^verbatim>\<open>getServicesMap(podsData, namespace)\<close>. The list of lines is never empty, so
  the first branch is never taken (there \<^verbatim>\<open>lines[0].split\<close> would throw).
\<close>

definition getServicesMap :: "string \<Rightarrow> string option \<Rightarrow> services_map outcome" where
  "getServicesMap podsData namespace =
     (case split_on CHR 0x0A (trim podsData) of
        [] \<Rightarrow> Throws TypeError
      | header # rest \<Rightarrow>
          (let headers = split_ws header;
               namespaceIndex = indexOf headers ''NAMESPACE'';
               nameIndex = indexOf headers ''NAME''
           in process_lines namespace namespaceIndex nameIndex [] rest))"

subsection \<open>What activate reads\<close>

text \<open>Line 96: \<^verbatim>\<open>Array.from(servicesMap.keys()).sort()\<close>, ordered by code units.\<close>

definition servicesList :: "services_map \<Rightarrow> string list" where
  "servicesList servicesMap = sort (map fst servicesMap)"

text \<open>Line 130: \<^verbatim>\<open>servicesMap.get(selectedService)?.[environment]\<close>.\<close>

definition serviceDetails :: "services_map \<Rightarrow> string \<Rightarrow> string \<Rightarrow> service_details option" where
  "serviceDetails servicesMap selectedService environment =
     (case map_of servicesMap selectedService of
        None \<Rightarrow> None
      | Some obj \<Rightarrow> obj environment)"

subsection \<open>Tables as text\<close>

text \<open>
  The text of a table, from its cells, to state how two tables relate: a cell is not
  empty and holds no white space, the cells of a line are joined by one space and the
  lines by a line feed. \<open>insert_at p x\<close> puts a cell in front of the cell at index
  \<open>p\<close>, and \<open>shift p\<close> is what this does to the index of every other cell.
\<close>

definition cell :: "string \<Rightarrow> bool" where
  "cell t \<longleftrightarrow> t \<noteq> [] \<and> (\<forall>c\<in>set t. \<not> is_ws c)"

definition render_line :: "string list \<Rightarrow> string" where
  "render_line cells = join '' '' cells"

definition render :: "string list list \<Rightarrow> string" where
  "render rows = join [CHR 0x0A] (map render_line rows)"

definition insert_at :: "nat \<Rightarrow> 'a \<Rightarrow> 'a list \<Rightarrow> 'a list" where
  "insert_at p x xs = take p xs @ x # drop p xs"

definition shift :: "nat \<Rightarrow> nat \<Rightarrow> nat" where
  "shift p k = (if k < p then k else Suc k)"

section \<open>Properties\<close>

subsection \<open>Splitting and trimming\<close>

lemma split_on_not_Nil: "split_on d s \<noteq> []"
  by (induction s) (auto split: list.splits)

lemma split_on_absent: "d \<notin> set s \<Longrightarrow> split_on d s = [s]"
  by (induction s) auto

lemma trim_all_ws:
  assumes "\<forall>c\<in>set s. is_ws c"
  shows "trim s = []"
  using assms by (auto simp: trim_def dest: set_dropWhileD)

lemma split_ws_not_Nil: "split_ws s \<noteq> []"
  by (induction s rule: split_ws.induct) (auto split: list.splits)

lemma join_Cons: "ps \<noteq> [] \<Longrightarrow> join sep (p # ps) = p @ sep @ join sep ps"
  by (cases ps) auto

lemma split_ws_plain: "\<forall>c\<in>set t. \<not> is_ws c \<Longrightarrow> split_ws t = [t]"
  by (induction t) auto

lemma split_ws_cell_then:
  assumes "\<forall>c\<in>set t. \<not> is_ws c" and "is_ws w"
  shows "split_ws (t @ w # rest) = t # split_ws (dropWhile is_ws rest)"
  using assms by (induction t) auto

lemma join_cells_hd:
  assumes "cells \<noteq> []" and "\<forall>t\<in>set cells. cell t"
  shows "join sep cells \<noteq> [] \<and> \<not> is_ws (hd (join sep cells))"
proof -
  from assms obtain p ps where cells: "cells = p # ps" and p: "p \<noteq> []" "\<not> is_ws (hd p)"
    by (cases cells) (auto simp: cell_def)
  then show ?thesis by (cases ps) auto
qed

lemma split_ws_render_line:
  assumes "cells \<noteq> []" and "\<forall>t\<in>set cells. cell t"
  shows "split_ws (render_line cells) = cells"
  using assms unfolding render_line_def
proof (induction "'' ''" cells rule: join.induct)
  case 1
  then show ?case by simp
next
  case (2 p)
  then show ?case by (simp add: split_ws_plain cell_def)
next
  case (3 p q ps)
  have rest: "join '' '' (q # ps) \<noteq> [] \<and> \<not> is_ws (hd (join '' '' (q # ps)))"
    using 3 by (intro join_cells_hd) auto
  then have "dropWhile is_ws (join '' '' (q # ps)) = join '' '' (q # ps)"
    by (cases "join '' '' (q # ps)") auto
  moreover have "split_ws (p @ CHR '' '' # join '' '' (q # ps))
      = p # split_ws (dropWhile is_ws (join '' '' (q # ps)))"
    using 3 by (intro split_ws_cell_then) (auto simp: cell_def is_ws_def)
  ultimately show ?case using 3 by simp
qed


lemma trim_id:
  assumes "s \<noteq> []" and "\<not> is_ws (hd s)" and "\<not> is_ws (last s)"
  shows "trim s = s"
proof -
  from assms have "dropWhile is_ws s = s" by (cases s) auto
  moreover from assms have "dropWhile is_ws (rev s) = rev s"
    by (cases "rev s") (auto simp: hd_rev)
  ultimately show ?thesis by (simp add: trim_def)
qed

lemma join_last:
  assumes "ps \<noteq> []" and "last ps \<noteq> []"
  shows "join sep ps \<noteq> [] \<and> last (join sep ps) = last (last ps)"
  using assms by (induction sep ps rule: join.induct) auto

lemma set_join: "set (join sep ps) \<subseteq> set sep \<union> \<Union> (set ` set ps)"
  by (induction sep ps rule: join.induct) auto

lemma split_on_piece_then:
  "d \<notin> set t \<Longrightarrow> split_on d (t @ d # rest) = t # split_on d rest"
  by (induction t) (auto simp: split_on_not_Nil split: list.splits)

lemma split_on_join:
  assumes "ls \<noteq> []" and "\<forall>l\<in>set ls. d \<notin> set l"
  shows "split_on d (join [d] ls) = ls"
  using assms
proof (induction "[d]" ls rule: join.induct)
  case 1
  then show ?case by simp
next
  case (2 p)
  then show ?case by (simp add: split_on_absent)
next
  case (3 p q ps)
  then show ?case by (simp add: split_on_piece_then)
qed

lemma render_line_shape:
  assumes "cells \<noteq> []" and "\<forall>t\<in>set cells. cell t"
  shows "render_line cells \<noteq> []" and "\<not> is_ws (hd (render_line cells))"
    and "\<not> is_ws (last (render_line cells))" and "CHR 0x0A \<notin> set (render_line cells)"
proof -
  from join_cells_hd [OF assms]
  show "render_line cells \<noteq> []" and "\<not> is_ws (hd (render_line cells))"
    by (simp_all add: render_line_def)
  from assms have "cell (last cells)" by simp
  then have "last cells \<noteq> []" and "\<not> is_ws (last (last cells))"
    by (simp_all add: cell_def)
  with join_last [OF assms(1), of "'' ''"]
  show "\<not> is_ws (last (render_line cells))"
    by (simp add: render_line_def)
  have "CHR 0x0A \<notin> set '' '' \<union> \<Union> (set ` set cells)"
    using assms(2) by (auto simp: cell_def is_ws_def)
  with set_join [of "'' ''" cells]
  show "CHR 0x0A \<notin> set (render_line cells)"
    unfolding render_line_def by blast
qed

lemma lines_of_render:
  assumes "rows \<noteq> []" and "\<forall>r\<in>set rows. r \<noteq> [] \<and> (\<forall>t\<in>set r. cell t)"
  shows "split_on CHR 0x0A (trim (render rows)) = map render_line rows"
proof -
  let ?ls = "map render_line rows"
  have nonempty: "?ls \<noteq> []" using assms(1) by simp
  have each: "\<forall>l\<in>set ?ls. l \<noteq> [] \<and> \<not> is_ws (hd l) \<and> \<not> is_ws (last l) \<and> CHR 0x0A \<notin> set l"
    using assms(2) by (auto simp: render_line_shape)
  have first: "hd ?ls \<noteq> [] \<and> \<not> is_ws (hd (hd ?ls))"
    using nonempty each by (metis hd_in_set)
  have final: "last ?ls \<noteq> [] \<and> \<not> is_ws (last (last ?ls))"
    using nonempty each by (metis last_in_set)
  obtain l ls where split: "?ls = l # ls" using nonempty by (cases ?ls) auto
  with first have "render rows \<noteq> [] \<and> \<not> is_ws (hd (render rows))"
    unfolding render_def by (cases ls) auto
  moreover from join_last [OF nonempty, of "[CHR 0x0A]"] final
  have "\<not> is_ws (last (render rows))"
    by (simp add: render_def)
  ultimately have "trim (render rows) = render rows"
    by (simp add: trim_id)
  moreover have "split_on CHR 0x0A (render rows) = ?ls"
    unfolding render_def using nonempty each by (intro split_on_join) auto
  ultimately show ?thesis by simp
qed

subsection \<open>The Map\<close>

lemma map_of_map_set: "map_of (map_set m k v) = (map_of m)(k \<mapsto> v)"
  by (induction m k v rule: map_set.induct) auto

lemma map_of_store:
  "map_of (store m s e d) =
     (map_of m)(s \<mapsto> (case map_of m s of None \<Rightarrow> Map.empty | Some obj \<Rightarrow> obj)(e \<mapsto> d))"
  by (auto simp: store_def map_has_def map_of_map_set)

lemma serviceDetails_store:
  "serviceDetails (store m s e d) s' e' =
     (if s' = s \<and> e' = e then Some d else serviceDetails m s' e')"
  by (auto simp: serviceDetails_def map_of_store split: option.splits)

lemma map_set_keys:
  "map fst (map_set m k v) = (if k \<in> set (map fst m) then map fst m else map fst m @ [k])"
  by (induction m k v rule: map_set.induct) auto

lemma map_set_twice: "map_set (map_set m k v) k v' = map_set m k v'"
  by (induction m k v rule: map_set.induct) auto

lemma store_eq:
  "store m s e d =
     map_set m s ((case map_of m s of None \<Rightarrow> Map.empty | Some obj \<Rightarrow> obj)(e \<mapsto> d))"
  by (auto simp: store_def map_has_def map_of_map_set map_set_twice split: option.splits)

lemma store_keys:
  "map fst (store m s e d) = (if s \<in> set (map fst m) then map fst m else map fst m @ [s])"
  by (simp add: store_eq map_set_keys)

lemma distinct_store: "distinct (map fst m) \<Longrightarrow> distinct (map fst (store m s e d))"
  by (simp add: store_keys)

lemma store_twice: "store (store m s e d) s e d = store m s e d"
  by (simp add: store_eq map_of_map_set map_set_twice)

lemma store_Nil: "store [] s e d = [(s, [e \<mapsto> d])]"
  by (simp add: store_eq)

subsection \<open>The loop\<close>

lemma process_lines_append:
  "process_lines ns i j m (xs @ ys) =
     (case process_lines ns i j m xs of
        Returns m' \<Rightarrow> process_lines ns i j m' ys
      | Throws e \<Rightarrow> Throws e
      | Unmodelled \<Rightarrow> Unmodelled)"
  by (induction xs arbitrary: m) (auto split: outcome.splits)

lemma line_step_no_name:
  "at (split_ws l) j = None \<Longrightarrow> line_step ns i j m l = Throws TypeError"
  by (simp add: line_step_def row_step_def)

text \<open>What a row does to the map: nothing, or one store that does not depend on the map.\<close>

lemma row_step_cases:
  "(\<forall>m. row_step m nsc nc = Returns m)
   \<or> (\<exists>s e d. \<forall>m. row_step m nsc nc = Returns (store m s e d))
   \<or> (\<exists>e. \<forall>m. row_step m nsc nc = Throws e)
   \<or> (\<forall>m. row_step m nsc nc = Unmodelled)"
proof (cases nc)
  case None
  then show ?thesis by (simp add: row_step_def)
next
  case (Some name)
  show ?thesis
  proof (cases "env_prefix name")
    case None
    with Some show ?thesis by (simp add: row_step_def)
  next
    case prefix: (Some envPrefix)
    show ?thesis
    proof (cases "strip_namespace nsc (strip_env name)")
      case (Returns modifiedName)
      show ?thesis
      proof (cases "length (split_on CHR ''-'' modifiedName) > 2")
        case True
        with Some prefix Returns
        have "\<exists>s e d. \<forall>m. row_step m nsc nc = Returns (store m s e d)"
          by (auto simp: row_step_def Let_def)
        then show ?thesis by blast
      next
        case False
        with Some prefix Returns show ?thesis by (simp add: row_step_def Let_def)
      qed
    next
      case (Throws e)
      with Some prefix show ?thesis by (simp add: row_step_def)
    next
      case Unmodelled
      with Some prefix show ?thesis by (simp add: row_step_def)
    qed
  qed
qed

lemma line_step_cases:
  "(\<forall>m. line_step ns i j m l = Returns m)
   \<or> (\<exists>s e d. \<forall>m. line_step ns i j m l = Returns (store m s e d))
   \<or> (\<exists>e. \<forall>m. line_step ns i j m l = Throws e)
   \<or> (\<forall>m. line_step ns i j m l = Unmodelled)"
  unfolding line_step_def Let_def by (rule row_step_cases)

lemma line_step_distinct:
  assumes "line_step ns i j m l = Returns m'" and "distinct (map fst m)"
  shows "distinct (map fst m')"
  using line_step_cases [of ns i j l] assms by (auto simp: distinct_store)

lemma process_lines_distinct:
  "process_lines ns i j m ls = Returns m' \<Longrightarrow> distinct (map fst m) \<Longrightarrow> distinct (map fst m')"
proof (induction ls arbitrary: m)
  case Nil
  then show ?case by simp
next
  case (Cons l ls)
  then show ?case
    by (auto split: outcome.splits dest: line_step_distinct)
qed

lemma getServicesMap_distinct:
  "getServicesMap podsData namespace = Returns m \<Longrightarrow> distinct (map fst m)"
  by (auto simp: getServicesMap_def Let_def split: list.splits dest: process_lines_distinct)

lemma line_step_again:
  assumes "line_step ns i j m l = Returns m'"
  shows "line_step ns i j m' l = Returns m'"
  using line_step_cases [of ns i j l] assms by (auto simp: store_twice)

lemma serviceDetails_Nil: "serviceDetails [] s e = None"
  by (simp add: serviceDetails_def)

lemma line_step_effect:
  assumes "line_step ns i j m l = Returns m'"
  shows "\<exists>m1. line_step ns i j [] l = Returns m1
    \<and> (\<forall>s e. serviceDetails m' s e =
          (case serviceDetails m1 s e of Some d \<Rightarrow> Some d | None \<Rightarrow> serviceDetails m s e))"
proof -
  consider (skip) "\<forall>m. line_step ns i j m l = Returns m"
    | (store) s' e' d' where "\<forall>m. line_step ns i j m l = Returns (store m s' e' d')"
    | (throw) e' where "\<forall>m. line_step ns i j m l = Throws e'"
    | (beyond) "\<forall>m. line_step ns i j m l = Unmodelled"
    using line_step_cases [of ns i j l] by blast
  then show ?thesis
  proof cases
    case skip
    with assms have "m' = m" by simp
    with skip show ?thesis by (simp add: serviceDetails_Nil)
  next
    case store
    with assms have "m' = store m s' e' d'" by simp
    with store show ?thesis by (simp add: serviceDetails_store serviceDetails_Nil)
  next
    case throw
    with assms show ?thesis by simp
  next
    case beyond
    with assms show ?thesis by simp
  qed
qed

lemma process_lines_frame:
  assumes "process_lines ns i j m ls = Returns m'"
    and "\<forall>l\<in>set ls. \<forall>m2. line_step ns i j [] l = Returns m2 \<longrightarrow> serviceDetails m2 s e = None"
  shows "serviceDetails m' s e = serviceDetails m s e"
  using assms
proof (induction ls arbitrary: m)
  case Nil
  then show ?case by simp
next
  case (Cons l ls)
  from Cons.prems(1) obtain m0 where step: "line_step ns i j m l = Returns m0"
    and rest: "process_lines ns i j m0 ls = Returns m'"
    by (auto split: outcome.splits)
  from line_step_effect [OF step] obtain m1 where m1: "line_step ns i j [] l = Returns m1"
    and eff: "serviceDetails m0 s e =
      (case serviceDetails m1 s e of Some d \<Rightarrow> Some d | None \<Rightarrow> serviceDetails m s e)"
    by blast
  from Cons.prems(2) m1 have "serviceDetails m1 s e = None" by simp
  with eff have "serviceDetails m0 s e = serviceDetails m s e" by simp
  moreover from Cons.IH [OF rest] Cons.prems(2)
  have "serviceDetails m' s e = serviceDetails m0 s e" by simp
  ultimately show ?case by simp
qed

lemma process_lines_last:
  assumes "process_lines ns i j m (before @ l # after) = Returns m'"
    and "line_step ns i j [] l = Returns m1" and "serviceDetails m1 s e = Some d"
    and "\<forall>l'\<in>set after. \<forall>m2. line_step ns i j [] l' = Returns m2 \<longrightarrow> serviceDetails m2 s e = None"
  shows "serviceDetails m' s e = Some d"
proof -
  from assms(1) obtain m0 m0' where "process_lines ns i j m before = Returns m0"
    and step: "line_step ns i j m0 l = Returns m0'"
    and rest: "process_lines ns i j m0' after = Returns m'"
    by (auto simp: process_lines_append split: outcome.splits)
  from line_step_effect [OF step] assms(2,3) have "serviceDetails m0' s e = Some d"
    by auto
  with process_lines_frame [OF rest assms(4)] show ?thesis by simp
qed

lemma process_lines_twice:
  "process_lines ns i j m (xs @ l # l # ys) = process_lines ns i j m (xs @ l # ys)"
  by (auto simp: process_lines_append line_step_again split: outcome.splits)

lemma env_prefix_None:
  "env_prefix name = None \<longleftrightarrow>
     \<not> startsWith name ''dev-'' \<and> \<not> startsWith name ''qa-'' \<and> \<not> startsWith name ''stg-''"
  by (simp add: env_prefix_def)

subsection \<open>A table with one more column\<close>

lemma insert_at_0: "insert_at 0 x xs = x # xs"
  by (simp add: insert_at_def)

lemma insert_at_Suc: "insert_at (Suc p) x (a # as) = a # insert_at p x as"
  by (simp add: insert_at_def)

lemma indexOf_insert_at_same:
  "x \<notin> set xs \<Longrightarrow> p \<le> length xs \<Longrightarrow> indexOf (insert_at p x xs) x = Some p"
proof (induction p arbitrary: xs)
  case 0
  then show ?case by (simp add: insert_at_0)
next
  case (Suc p)
  then obtain a as where "xs = a # as" by (cases xs) auto
  with Suc show ?case by (auto simp: insert_at_Suc)
qed

lemma indexOf_insert_at_other:
  "y \<noteq> x \<Longrightarrow> indexOf (insert_at p x xs) y = map_option (shift p) (indexOf xs y)"
proof (induction p arbitrary: xs)
  case 0
  then show ?case
    by (simp add: insert_at_0 shift_def option.map_comp comp_def cong: option.map_cong)
next
  case (Suc p)
  show ?case
  proof (cases xs)
    case Nil
    with Suc.prems show ?thesis by (simp add: insert_at_def)
  next
    case (Cons a as)
    with Suc show ?thesis
      by (auto simp: insert_at_Suc shift_def option.map_comp comp_def
          intro!: option.map_cong)
  qed
qed

lemma at_insert_at_same: "p \<le> length r \<Longrightarrow> at (insert_at p x r) (Some p) = Some x"
  by (simp add: insert_at_def nth_append)

lemma at_insert_at_other:
  "p \<le> length r \<Longrightarrow> at (insert_at p x r) (map_option (shift p) k) = at r k"
  by (cases k) (auto simp: insert_at_def shift_def nth_append Suc_diff_le)

lemma insert_at_cells:
  assumes "cell x" and "\<forall>t\<in>set r. cell t"
  shows "insert_at p x r \<noteq> [] \<and> (\<forall>t\<in>set (insert_at p x r). cell t)"
  using assms by (auto simp: insert_at_def dest: in_set_takeD in_set_dropD)

lemma fixed_namespace_line:
  assumes "cell N" and "r \<noteq> []" and "p \<le> length r" and "\<forall>t\<in>set r. cell t"
  shows "line_step None (Some p) (map_option (shift p) k) m (render_line (insert_at p N r))
       = line_step (Some N) i k m (render_line r)"
proof -
  have "split_ws (render_line (insert_at p N r)) = insert_at p N r"
    using insert_at_cells [OF assms(1,4)] by (intro split_ws_render_line) auto
  moreover have "split_ws (render_line r) = r"
    using assms by (intro split_ws_render_line) auto
  ultimately show ?thesis
    using assms(3)
    by (simp add: line_step_def Let_def at_insert_at_same at_insert_at_other del: at.simps)
qed

lemma fixed_namespace_lines:
  assumes "cell N" and "\<forall>r\<in>set rows. r \<noteq> [] \<and> p \<le> length r \<and> (\<forall>t\<in>set r. cell t)"
  shows "process_lines None (Some p) (map_option (shift p) k) m
           (map render_line (map (insert_at p N) rows))
       = process_lines (Some N) i k m (map render_line rows)"
  using assms(2)
proof (induction rows arbitrary: m)
  case Nil
  then show ?case by simp
next
  case (Cons r rows)
  have "line_step None (Some p) (map_option (shift p) k) m (render_line (insert_at p N r))
      = line_step (Some N) i k m (render_line r)"
    using Cons.prems by (intro fixed_namespace_line [OF assms(1)]) auto
  with Cons show ?case
    by (simp split: outcome.splits)
qed

subsection \<open>Namespaces without a character of the pattern syntax\<close>

text \<open>
  For such a namespace the replacement removes the namespace and a dash from the start of
  the name, once, or nothing; a loop over lines that have a name cell and such
  namespaces returns a map.
\<close>

lemma match_start_plain:
  "CHR ''.'' \<notin> set p \<Longrightarrow>
     match_start p s = (if startsWith s p then Some (drop (length p) s) else None)"
  by (induction p s rule: match_start.induct) (auto simp: startsWith_def)

lemma replace_namespace_plain:
  assumes "\<forall>c\<in>set n. \<not> regexp_syntax_char c"
  shows "replace_namespace n s =
     Returns (if startsWith s (n @ ''-'') then drop (length n + 1) s else s)"
proof -
  from assms have "filter (\<lambda>c. regexp_syntax_char c \<and> c \<noteq> CHR ''.'') n = []"
    by (simp add: filter_empty_conv)
  moreover from assms have "CHR ''.'' \<notin> set (n @ ''-'')"
    by (auto simp: regexp_syntax_char_def)
  ultimately show ?thesis
    by (simp add: replace_namespace_def match_start_plain)
qed

lemma strip_namespace_plain:
  assumes "case nsc of None \<Rightarrow> True | Some n \<Rightarrow> \<forall>c\<in>set n. \<not> regexp_syntax_char c"
  shows "\<exists>modifiedName. strip_namespace nsc s = Returns modifiedName"
  using assms by (auto simp: strip_namespace_def replace_namespace_plain split: option.splits)

lemma row_step_plain:
  assumes "case nsc of None \<Rightarrow> True | Some n \<Rightarrow> \<forall>c\<in>set n. \<not> regexp_syntax_char c"
  shows "\<exists>m'. row_step m nsc (Some name) = Returns m'"
proof (cases "env_prefix name")
  case None
  then show ?thesis by (simp add: row_step_def)
next
  case (Some envPrefix)
  from strip_namespace_plain [OF assms] obtain modifiedName
    where "strip_namespace nsc (strip_env name) = Returns modifiedName" by blast
  with Some show ?thesis by (simp add: row_step_def Let_def)
qed

lemma process_lines_plain:
  assumes "\<forall>l\<in>set ls. at (split_ws l) j \<noteq> None
      \<and> (case (case ns of Some n \<Rightarrow> Some n | None \<Rightarrow> at (split_ws l) i) of
           None \<Rightarrow> True | Some n \<Rightarrow> \<forall>c\<in>set n. \<not> regexp_syntax_char c)"
  shows "\<exists>m'. process_lines ns i j m ls = Returns m'"
  using assms
proof (induction ls arbitrary: m)
  case Nil
  then show ?case by simp
next
  case (Cons l ls)
  then obtain name where name: "at (split_ws l) j = Some name" by auto
  from Cons.prems
  have "case (case ns of Some n \<Rightarrow> Some n | None \<Rightarrow> at (split_ws l) i) of
          None \<Rightarrow> True | Some n \<Rightarrow> \<forall>c\<in>set n. \<not> regexp_syntax_char c"
    by simp
  from row_step_plain [OF this] name obtain m1
    where "line_step ns i j m l = Returns m1"
    by (auto simp: line_step_def)
  moreover from Cons obtain m2 where "process_lines ns i j m1 ls = Returns m2"
    by fastforce
  ultimately show ?case by simp
qed

subsection \<open>A header without the NAME column\<close>

text \<open>
  Claim C1 says that a header row without the \<^verbatim>\<open>NAME\<close> column makes the whole
  parse fail. The source never inspects the header: a table that is only such a header
  returns the empty map.
\<close>

theorem missing_name_header_only_counterexample:
  "indexOf (split_ws ''READY STATUS'') ''NAME'' = None
   \<and> indexOf (split_ws ''READY STATUS'') ''NAMESPACE'' = None
   \<and> getServicesMap ''READY STATUS'' None = Returns []"
  by (simp add: getServicesMap_def trim_def is_ws_def)

text \<open>
  Claim C1, as the code has it: when the header row has no \<^verbatim>\<open>NAME\<close> column and at
  least one line follows it, the call throws a \<^verbatim>\<open>TypeError\<close> at the first of
  these lines, whatever the namespace argument, and no map is returned.
\<close>

theorem missing_name_throws:
  assumes "split_on CHR 0x0A (trim podsData) = header # l # ls"
    and "indexOf (split_ws header) ''NAME'' = None"
  shows "getServicesMap podsData namespace = Throws TypeError"
  using assms by (simp add: getServicesMap_def line_step_no_name)

theorem missing_name_throws_witness:
  "split_on CHR 0x0A (trim ''NAMESPACE READY\<newline>team-a 1/1'')
     = [''NAMESPACE READY'', ''team-a 1/1'']
   \<and> indexOf (split_ws ''NAMESPACE READY'') ''NAME'' = None
   \<and> getServicesMap ''NAMESPACE READY\<newline>team-a 1/1'' None = Throws TypeError"
  using missing_name_throws [of "''NAMESPACE READY\<newline>team-a 1/1''"
      "''NAMESPACE READY''" "''team-a 1/1''" "[]" None]
  by (simp add: trim_def is_ws_def)

subsection \<open>A data line with too few cells\<close>

text \<open>
  Claim C2 says that a data line with too few cells is skipped without a failure and
  without an effect on the other lines. Under a valid header, the line \<^verbatim>\<open>orphan\<close>
  has no cell at the index of \<^verbatim>\<open>NAME\<close>: the call throws, and the entry of the
  well-formed line before it is lost with it.
\<close>

theorem short_line_counterexample:
  "indexOf (split_ws ''NAMESPACE NAME'') ''NAMESPACE'' = Some 0
   \<and> indexOf (split_ws ''NAMESPACE NAME'') ''NAME'' = Some 1
   \<and> split_ws ''orphan'' = [''orphan'']
   \<and> getServicesMap
        ''NAMESPACE NAME\<newline>team-a dev-team-a-checkout-7f9c4d-x2k1p\<newline>orphan'' None
       = Throws TypeError"
  by (simp add: getServicesMap_def trim_def is_ws_def line_step_def row_step_def env_prefix_def
      strip_env_def startsWith_def strip_namespace_def replace_namespace_def
      regexp_syntax_char_def store_def map_has_def)

text \<open>
  Claim C2, as the code has it. A data line without a cell at the index of \<^verbatim>\<open>NAME\<close>
  is not skipped: when the loop reaches it the call throws a \<^verbatim>\<open>TypeError\<close>, so
  the result is that of the lines before it with every returned map replaced by the
  exception. A data line with a cell at the index of \<^verbatim>\<open>NAME\<close> and none at the
  index of \<^verbatim>\<open>NAMESPACE\<close>, read without a fixed namespace, is not skipped either:
  it is resolved with an undefined namespace and no namespace strip.
\<close>

theorem short_line_throws:
  assumes "split_on CHR 0x0A (trim podsData) = header # before @ l # after"
    and "nameIndex = indexOf (split_ws header) ''NAME''"
    and "namespaceIndex = indexOf (split_ws header) ''NAMESPACE''"
  shows "(at (split_ws l) nameIndex = None \<longrightarrow>
            getServicesMap podsData namespace =
              (case process_lines namespace namespaceIndex nameIndex [] before of
                 Returns m \<Rightarrow> Throws TypeError
               | Throws e \<Rightarrow> Throws e
               | Unmodelled \<Rightarrow> Unmodelled))
       \<and> (\<forall>name envPrefix parts m.
            at (split_ws l) nameIndex = Some name \<and> at (split_ws l) namespaceIndex = None
            \<and> env_prefix name = Some envPrefix
            \<and> parts = split_on CHR ''-'' (strip_env name) \<and> length parts > 2
            \<longrightarrow> (\<exists>m'. line_step None namespaceIndex nameIndex m l = Returns m'
                   \<and> serviceDetails m' (join ''-'' (take (length parts - 2) parts)) envPrefix
                       = Some \<lparr>details_id = join ''-'' (drop (length parts - 2) parts),
                                details_namespace = None\<rparr>))"
proof (intro conjI impI allI)
  assume "at (split_ws l) nameIndex = None"
  with assms show "getServicesMap podsData namespace =
              (case process_lines namespace namespaceIndex nameIndex [] before of
                 Returns m \<Rightarrow> Throws TypeError
               | Throws e \<Rightarrow> Throws e
               | Unmodelled \<Rightarrow> Unmodelled)"
    by (simp add: getServicesMap_def Let_def process_lines_append line_step_no_name
        split: outcome.splits)
next
  fix name envPrefix parts m
  assume "at (split_ws l) nameIndex = Some name \<and> at (split_ws l) namespaceIndex = None
            \<and> env_prefix name = Some envPrefix
            \<and> parts = split_on CHR ''-'' (strip_env name) \<and> length parts > 2"
  then show "\<exists>m'. line_step None namespaceIndex nameIndex m l = Returns m'
                   \<and> serviceDetails m' (join ''-'' (take (length parts - 2) parts)) envPrefix
                       = Some \<lparr>details_id = join ''-'' (drop (length parts - 2) parts),
                                details_namespace = None\<rparr>"
    by (auto simp: line_step_def row_step_def strip_namespace_def Let_def serviceDetails_store)
qed

theorem short_line_throws_witness:
  "getServicesMap
      ''NAMESPACE NAME\<newline>kube-system coredns-5d78c9869d-abcde\<newline>orphan\<newline>x y'' None
     = Throws TypeError
   \<and> (\<exists>m'. line_step None (Some 1) (Some 0) [] ''dev-checkout-7f9c4d-x2k1p'' = Returns m'
          \<and> serviceDetails m' ''checkout'' ''dev''
              = Some \<lparr>details_id = ''7f9c4d-x2k1p'', details_namespace = None\<rparr>)"
proof -
  have lines: "split_on CHR 0x0A
      (trim ''NAMESPACE NAME\<newline>kube-system coredns-5d78c9869d-abcde\<newline>orphan\<newline>x y'')
    = ''NAMESPACE NAME'' # [''kube-system coredns-5d78c9869d-abcde''] @ ''orphan'' # [''x y'']"
    by (simp add: trim_def is_ws_def)
  have name: "Some 1 = indexOf (split_ws ''NAMESPACE NAME'') ''NAME''"
    by (simp add: is_ws_def)
  have namespace: "Some 0 = indexOf (split_ws ''NAMESPACE NAME'') ''NAMESPACE''"
    by (simp add: is_ws_def)
  have short: "at (split_ws ''orphan'') (Some 1) = None"
    by (simp add: is_ws_def)
  have before: "process_lines None (Some 0) (Some 1) []
      [''kube-system coredns-5d78c9869d-abcde''] = Returns []"
    by (simp add: is_ws_def line_step_def row_step_def env_prefix_def startsWith_def)
  have a: "getServicesMap
      ''NAMESPACE NAME\<newline>kube-system coredns-5d78c9869d-abcde\<newline>orphan\<newline>x y'' None
     = Throws TypeError"
    using short_line_throws [OF lines name namespace, of None, THEN conjunct1] short before
    by simp
  have lines': "split_on CHR 0x0A (trim ''NAME NAMESPACE\<newline>dev-checkout-7f9c4d-x2k1p'')
    = ''NAME NAMESPACE'' # [] @ ''dev-checkout-7f9c4d-x2k1p'' # []"
    by (simp add: trim_def is_ws_def)
  have name': "Some 0 = indexOf (split_ws ''NAME NAMESPACE'') ''NAME''"
    by (simp add: is_ws_def)
  have namespace': "Some 1 = indexOf (split_ws ''NAME NAMESPACE'') ''NAMESPACE''"
    by (simp add: is_ws_def)
  have cells: "at (split_ws ''dev-checkout-7f9c4d-x2k1p'') (Some 0) = Some ''dev-checkout-7f9c4d-x2k1p''
    \<and> at (split_ws ''dev-checkout-7f9c4d-x2k1p'') (Some 1) = None
    \<and> env_prefix ''dev-checkout-7f9c4d-x2k1p'' = Some ''dev''
    \<and> [''checkout'', ''7f9c4d'', ''x2k1p''] = split_on CHR ''-'' (strip_env ''dev-checkout-7f9c4d-x2k1p'')
    \<and> length [''checkout'', ''7f9c4d'', ''x2k1p''] > 2"
    by (simp add: is_ws_def env_prefix_def strip_env_def startsWith_def)
  have b: "\<exists>m'. line_step None (Some 1) (Some 0) [] ''dev-checkout-7f9c4d-x2k1p'' = Returns m'
          \<and> serviceDetails m' ''checkout'' ''dev''
              = Some \<lparr>details_id = ''7f9c4d-x2k1p'', details_namespace = None\<rparr>"
    using short_line_throws [OF lines' name' namespace', of None, THEN conjunct2, rule_format,
        OF cells, of "[]"]
    by simp
  from a b show ?thesis by (rule conjI)
qed

subsection \<open>An input without data lines\<close>

text \<open>
  Claim C10: for every namespace argument, a text that is empty, that is white space
  only, or whose trimmed form is a single line (a header and no data line) gives the
  empty map, and nothing is thrown.
\<close>

theorem empty_input_gives_empty_map:
  assumes "podsData = [] \<or> (\<forall>c\<in>set podsData. is_ws c) \<or> CHR 0x0A \<notin> set (trim podsData)"
  shows "getServicesMap podsData namespace = Returns []"
proof -
  have "CHR 0x0A \<notin> set (trim podsData)"
  proof (cases "\<forall>c\<in>set podsData. is_ws c")
    case True
    from trim_all_ws [OF True] show ?thesis by simp
  next
    case False
    with assms show ?thesis by auto
  qed
  then have "split_on CHR 0x0A (trim podsData) = [trim podsData]"
    by (rule split_on_absent)
  then show ?thesis
    by (simp add: getServicesMap_def)
qed

theorem empty_input_gives_empty_map_witness:
  "getServicesMap [] (Some ''team-a'') = Returns []
   \<and> getServicesMap '' \<newline>  '' None = Returns []
   \<and> getServicesMap ''NAMESPACE NAME READY\<newline>'' None = Returns []"
  using empty_input_gives_empty_map [of "[]" "Some ''team-a''"]
    empty_input_gives_empty_map [of "'' \<newline>  ''" None]
    empty_input_gives_empty_map [of "''NAMESPACE NAME READY\<newline>''" None]
  by (simp add: is_ws_def trim_def)

subsection \<open>Scenario A\<close>

text \<open>
  Claim C6: for the header line \<^verbatim>\<open>NAMESPACE NAME\<close> and the data line
  \<^verbatim>\<open>team-a dev-team-a-checkout-7f9c4d-x2k1p\<close>, read without a fixed namespace,
  the map has the one service \<^verbatim>\<open>checkout\<close>, and its environment \<^verbatim>\<open>dev\<close>
  is bound to the id \<^verbatim>\<open>7f9c4d-x2k1p\<close> in the namespace \<^verbatim>\<open>team-a\<close>.
\<close>

theorem scenario_A:
  "getServicesMap ''NAMESPACE NAME\<newline>team-a dev-team-a-checkout-7f9c4d-x2k1p'' None
     = Returns [(''checkout'',
         [''dev'' \<mapsto> \<lparr>details_id = ''7f9c4d-x2k1p'', details_namespace = Some ''team-a''\<rparr>])]
   \<and> serviceDetails
         [(''checkout'',
           [''dev'' \<mapsto> \<lparr>details_id = ''7f9c4d-x2k1p'', details_namespace = Some ''team-a''\<rparr>])]
         ''checkout'' ''dev''
       = Some \<lparr>details_id = ''7f9c4d-x2k1p'', details_namespace = Some ''team-a''\<rparr>"
proof
  show "getServicesMap ''NAMESPACE NAME\<newline>team-a dev-team-a-checkout-7f9c4d-x2k1p'' None
     = Returns [(''checkout'',
         [''dev'' \<mapsto> \<lparr>details_id = ''7f9c4d-x2k1p'', details_namespace = Some ''team-a''\<rparr>])]"
    by (simp add: getServicesMap_def trim_def is_ws_def line_step_def row_step_def env_prefix_def
      strip_env_def startsWith_def strip_namespace_def replace_namespace_def
      regexp_syntax_char_def store_def map_has_def)
  show "serviceDetails
         [(''checkout'',
           [''dev'' \<mapsto> \<lparr>details_id = ''7f9c4d-x2k1p'', details_namespace = Some ''team-a''\<rparr>])]
         ''checkout'' ''dev''
       = Some \<lparr>details_id = ''7f9c4d-x2k1p'', details_namespace = Some ''team-a''\<rparr>"
    by (simp add: serviceDetails_def)
qed

subsection \<open>Rows that are left out\<close>

text \<open>
  A row whose name starts with none of \<^verbatim>\<open>dev-\<close>, \<^verbatim>\<open>qa-\<close> and \<^verbatim>\<open>stg-\<close>
  leaves every map as it is and throws nothing, and so does a row whose namespace strip
  returns a name that splits on the dash into fewer than 3 pieces; the result of the
  call is then the result of the loop over the other lines. The strip returns for every
  namespace without a character of the pattern syntax, and there it removes the
  namespace and a dash from the start of the name or nothing.
\<close>

lemma excluded_row_when_strip_returns:
  assumes "split_on CHR 0x0A (trim podsData) = header # before @ l # after"
    and "nameIndex = indexOf (split_ws header) ''NAME''"
    and "namespaceIndex = indexOf (split_ws header) ''NAMESPACE''"
    and "at (split_ws l) nameIndex = Some name"
    and "namespaceColumn =
           (case namespace of Some n \<Rightarrow> Some n | None \<Rightarrow> at (split_ws l) namespaceIndex)"
    and "(\<not> startsWith name ''dev-'' \<and> \<not> startsWith name ''qa-'' \<and> \<not> startsWith name ''stg-'')
         \<or> (\<exists>modifiedName.
               strip_namespace namespaceColumn (strip_env name) = Returns modifiedName
               \<and> length (split_on CHR ''-'' modifiedName) < 3)"
  shows "(\<forall>m. line_step namespace namespaceIndex nameIndex m l = Returns m)
       \<and> getServicesMap podsData namespace =
           process_lines namespace namespaceIndex nameIndex [] (before @ after)"
proof -
  have skip: "line_step namespace namespaceIndex nameIndex m l = Returns m" for m
  proof (cases "env_prefix name")
    case None
    with assms(4) show ?thesis by (simp add: line_step_def row_step_def)
  next
    case (Some envPrefix)
    with assms(6) obtain modifiedName
      where "strip_namespace namespaceColumn (strip_env name) = Returns modifiedName"
        and "length (split_on CHR ''-'' modifiedName) < 3"
      by (auto simp: env_prefix_None [symmetric])
    with assms(4,5) Some show ?thesis
      by (simp add: line_step_def row_step_def Let_def)
  qed
  have "getServicesMap podsData namespace =
      process_lines namespace namespaceIndex nameIndex [] (before @ l # after)"
    using assms(1-3) by (simp add: getServicesMap_def Let_def)
  also have "\<dots> = process_lines namespace namespaceIndex nameIndex [] (before @ after)"
    by (simp add: process_lines_append skip split: outcome.splits)
  finally show ?thesis using skip by blast
qed

lemma excluded_row_plain:
  assumes "split_on CHR 0x0A (trim podsData) = header # before @ l # after"
    and "nameIndex = indexOf (split_ws header) ''NAME''"
    and "namespaceIndex = indexOf (split_ws header) ''NAMESPACE''"
    and "at (split_ws l) nameIndex = Some name"
    and "namespaceColumn =
           (case namespace of Some n \<Rightarrow> Some n | None \<Rightarrow> at (split_ws l) namespaceIndex)"
    and "case namespaceColumn of None \<Rightarrow> True | Some n \<Rightarrow> \<forall>c\<in>set n. \<not> regexp_syntax_char c"
    and "(\<not> startsWith name ''dev-'' \<and> \<not> startsWith name ''qa-'' \<and> \<not> startsWith name ''stg-'')
         \<or> length (split_on CHR ''-''
               (case namespaceColumn of
                  None \<Rightarrow> strip_env name
                | Some n \<Rightarrow>
                    if n \<noteq> [] \<and> startsWith (strip_env name) (n @ ''-'')
                    then drop (length n + 1) (strip_env name) else strip_env name)) < 3"
  shows "(\<forall>m. line_step namespace namespaceIndex nameIndex m l = Returns m)
       \<and> getServicesMap podsData namespace =
           process_lines namespace namespaceIndex nameIndex [] (before @ after)"
proof -
  have "strip_namespace namespaceColumn (strip_env name) =
      Returns (case namespaceColumn of
                  None \<Rightarrow> strip_env name
                | Some n \<Rightarrow>
                    if n \<noteq> [] \<and> startsWith (strip_env name) (n @ ''-'')
                    then drop (length n + 1) (strip_env name) else strip_env name)"
    using assms(6)
    by (auto simp: strip_namespace_def replace_namespace_plain split: option.splits)
  with assms(7)
  have "(\<not> startsWith name ''dev-'' \<and> \<not> startsWith name ''qa-'' \<and> \<not> startsWith name ''stg-'')
         \<or> (\<exists>modifiedName.
               strip_namespace namespaceColumn (strip_env name) = Returns modifiedName
               \<and> length (split_on CHR ''-'' modifiedName) < 3)"
    by auto
  with assms(1-5) show ?thesis by (rule excluded_row_when_strip_returns)
qed

text \<open>
  Claim C7 says that a row whose name, once the prefix and the namespace are stripped,
  splits on the dash into fewer than 3 pieces adds no entry and raises no error, and
  that the other rows are unaffected. The row with the namespace \<^verbatim>\<open>)\<close> and the
  name \<^verbatim>\<open>dev-foo-ab\<close> is such a row: the prefix-stripped name \<^verbatim>\<open>foo-ab\<close> does
  not start with \<^verbatim>\<open>)-\<close> and has 2 pieces. The pattern is built from the
  unescaped namespace before the pieces are counted, its constructor throws a
  \<^verbatim>\<open>SyntaxError\<close>, and the entry of the well-formed row before it is lost with
  the call.
\<close>

theorem short_row_with_parenthesis_namespace_throws:
  "at (split_ws '') dev-foo-ab'') (Some 0) = Some '')''
   \<and> at (split_ws '') dev-foo-ab'') (Some 1) = Some ''dev-foo-ab''
   \<and> strip_env ''dev-foo-ab'' = ''foo-ab''
   \<and> \<not> startsWith ''foo-ab'' '')-''
   \<and> length (split_on CHR ''-'' ''foo-ab'') < 3
   \<and> getServicesMap
        ''NAMESPACE NAME\<newline>team-a dev-team-a-checkout-7f9c4d-x2k1p\<newline>) dev-foo-ab'' None
       = Throws SyntaxError"
  by (simp add: getServicesMap_def trim_def is_ws_def line_step_def row_step_def env_prefix_def
        strip_env_def startsWith_def strip_namespace_def replace_namespace_def
        regexp_syntax_char_def store_def map_has_def Let_def)

subsection \<open>One binding for a service and an environment\<close>

text \<open>
  Claim C8, for every input for which the call returns a map. A line binds a service
  and an environment when, run alone on the empty map, it returns a map in which they
  are bound.
  \<^item> The map has one entry for a service name (and the entry, an object, has one
    binding for an environment).
  \<^item> Last wins: when a line binds a service and an environment and no line after
    it does, the returned map holds the binding of that line, whatever the lines
    before it bound and whatever the lines after it bind for other services and
    environments.
  \<^item> A service and an environment that no line binds are not bound in the returned
    map.
  \<^item> An input in which one of the lines is fed twice in a row returns the same map.
\<close>

theorem last_binding_wins:
  assumes "split_on CHR 0x0A (trim podsData) = header # ls"
    and "nameIndex = indexOf (split_ws header) ''NAME''"
    and "namespaceIndex = indexOf (split_ws header) ''NAMESPACE''"
    and "getServicesMap podsData namespace = Returns servicesMap"
  shows "distinct (map fst servicesMap)
    \<and> (\<forall>before l after m1 d.
          ls = before @ l # after
          \<and> line_step namespace namespaceIndex nameIndex [] l = Returns m1
          \<and> serviceDetails m1 s e = Some d
          \<and> (\<forall>l'\<in>set after. \<forall>m2.
                line_step namespace namespaceIndex nameIndex [] l' = Returns m2
                \<longrightarrow> serviceDetails m2 s e = None)
        \<longrightarrow> serviceDetails servicesMap s e = Some d)
    \<and> ((\<forall>l\<in>set ls. \<forall>m2.
            line_step namespace namespaceIndex nameIndex [] l = Returns m2
            \<longrightarrow> serviceDetails m2 s e = None)
        \<longrightarrow> serviceDetails servicesMap s e = None)
    \<and> (\<forall>xs l ys podsData'.
          ls = xs @ l # ys
          \<and> split_on CHR 0x0A (trim podsData') = header # xs @ l # l # ys
        \<longrightarrow> getServicesMap podsData' namespace = Returns servicesMap)"
proof -
  have run: "process_lines namespace namespaceIndex nameIndex [] ls = Returns servicesMap"
    using assms by (simp add: getServicesMap_def Let_def)
  have one: "distinct (map fst servicesMap)"
    using assms(4) by (rule getServicesMap_distinct)
  have last: "serviceDetails servicesMap s e = Some d"
    if "ls = before @ l # after"
      and "line_step namespace namespaceIndex nameIndex [] l = Returns m1"
      and "serviceDetails m1 s e = Some d"
      and "\<forall>l'\<in>set after. \<forall>m2.
                line_step namespace namespaceIndex nameIndex [] l' = Returns m2
                \<longrightarrow> serviceDetails m2 s e = None"
    for before l after m1 d
    using run that by (auto intro: process_lines_last)
  have none: "serviceDetails servicesMap s e = None"
    if "\<forall>l\<in>set ls. \<forall>m2.
            line_step namespace namespaceIndex nameIndex [] l = Returns m2
            \<longrightarrow> serviceDetails m2 s e = None"
    using process_lines_frame [OF run that] by (simp add: serviceDetails_Nil)
  have twice: "getServicesMap podsData' namespace = Returns servicesMap"
    if "ls = xs @ l # ys"
      and "split_on CHR 0x0A (trim podsData') = header # xs @ l # l # ys"
    for xs l ys podsData'
    using run that assms(2,3) by (simp add: getServicesMap_def Let_def process_lines_twice)
  from one last none twice show ?thesis by blast
qed

theorem last_binding_wins_witness:
  "getServicesMap
      ''NAME\<newline>dev-team-a-checkout-7f9c4d-x2k1p\<newline>dev-team-a-checkout-85b6d-q9wrt\<newline>qa-team-a-checkout-5d7c8-aaaaa''
      (Some ''team-a'')
     = Returns [(''checkout'',
         [''dev'' \<mapsto> \<lparr>details_id = ''85b6d-q9wrt'', details_namespace = Some ''team-a''\<rparr>,
          ''qa'' \<mapsto> \<lparr>details_id = ''5d7c8-aaaaa'', details_namespace = Some ''team-a''\<rparr>])]
   \<and> distinct (map fst [(''checkout'',
         [''dev'' \<mapsto> \<lparr>details_id = ''85b6d-q9wrt'', details_namespace = Some ''team-a''\<rparr>,
          ''qa'' \<mapsto> \<lparr>details_id = ''5d7c8-aaaaa'', details_namespace = Some ''team-a''\<rparr>])])
   \<and> serviceDetails [(''checkout'',
         [''dev'' \<mapsto> \<lparr>details_id = ''85b6d-q9wrt'', details_namespace = Some ''team-a''\<rparr>,
          ''qa'' \<mapsto> \<lparr>details_id = ''5d7c8-aaaaa'', details_namespace = Some ''team-a''\<rparr>])]
       ''checkout'' ''dev''
     = Some \<lparr>details_id = ''85b6d-q9wrt'', details_namespace = Some ''team-a''\<rparr>
   \<and> serviceDetails [(''checkout'',
         [''dev'' \<mapsto> \<lparr>details_id = ''85b6d-q9wrt'', details_namespace = Some ''team-a''\<rparr>,
          ''qa'' \<mapsto> \<lparr>details_id = ''5d7c8-aaaaa'', details_namespace = Some ''team-a''\<rparr>])]
       ''checkout'' ''stg''
     = None
   \<and> getServicesMap
      ''NAME\<newline>dev-team-a-checkout-7f9c4d-x2k1p\<newline>dev-team-a-checkout-85b6d-q9wrt\<newline>dev-team-a-checkout-85b6d-q9wrt\<newline>qa-team-a-checkout-5d7c8-aaaaa''
      (Some ''team-a'')
     = Returns [(''checkout'',
         [''dev'' \<mapsto> \<lparr>details_id = ''85b6d-q9wrt'', details_namespace = Some ''team-a''\<rparr>,
          ''qa'' \<mapsto> \<lparr>details_id = ''5d7c8-aaaaa'', details_namespace = Some ''team-a''\<rparr>])]"
proof -
  let ?T = "''NAME\<newline>dev-team-a-checkout-7f9c4d-x2k1p\<newline>dev-team-a-checkout-85b6d-q9wrt\<newline>qa-team-a-checkout-5d7c8-aaaaa''"
  let ?T' = "''NAME\<newline>dev-team-a-checkout-7f9c4d-x2k1p\<newline>dev-team-a-checkout-85b6d-q9wrt\<newline>dev-team-a-checkout-85b6d-q9wrt\<newline>qa-team-a-checkout-5d7c8-aaaaa''"
  let ?L1 = "''dev-team-a-checkout-7f9c4d-x2k1p''"
  let ?L2 = "''dev-team-a-checkout-85b6d-q9wrt''"
  let ?L3 = "''qa-team-a-checkout-5d7c8-aaaaa''"
  let ?D1 = "\<lparr>details_id = ''7f9c4d-x2k1p'', details_namespace = Some ''team-a''\<rparr>"
  let ?D2 = "\<lparr>details_id = ''85b6d-q9wrt'', details_namespace = Some ''team-a''\<rparr>"
  let ?D3 = "\<lparr>details_id = ''5d7c8-aaaaa'', details_namespace = Some ''team-a''\<rparr>"
  let ?M = "[(''checkout'', [''dev'' \<mapsto> ?D2, ''qa'' \<mapsto> ?D3])]"
  have lines: "split_on CHR 0x0A (trim ?T) = ''NAME'' # [?L1, ?L2, ?L3]"
    by (simp add: trim_def is_ws_def)
  have lines': "split_on CHR 0x0A (trim ?T') = ''NAME'' # [?L1] @ ?L2 # ?L2 # [?L3]"
    by (simp add: trim_def is_ws_def)
  have name: "Some 0 = indexOf (split_ws ''NAME'') ''NAME''"
    by (simp add: is_ws_def)
  have namespace: "None = indexOf (split_ws ''NAME'') ''NAMESPACE''"
    by (simp add: is_ws_def)
  have one: "line_step (Some ''team-a'') None (Some 0) m ?L1
      = Returns (store m ''checkout'' ''dev'' ?D1)" for m
    by (simp add: is_ws_def line_step_def row_step_def env_prefix_def strip_env_def
        startsWith_def strip_namespace_def replace_namespace_def regexp_syntax_char_def)
  have two: "line_step (Some ''team-a'') None (Some 0) m ?L2
      = Returns (store m ''checkout'' ''dev'' ?D2)" for m
    by (simp add: is_ws_def line_step_def row_step_def env_prefix_def strip_env_def
        startsWith_def strip_namespace_def replace_namespace_def regexp_syntax_char_def)
  have three: "line_step (Some ''team-a'') None (Some 0) m ?L3
      = Returns (store m ''checkout'' ''qa'' ?D3)" for m
    by (simp add: is_ws_def line_step_def row_step_def env_prefix_def strip_env_def
        startsWith_def strip_namespace_def replace_namespace_def regexp_syntax_char_def)
  have whole: "getServicesMap ?T (Some ''team-a'') = Returns ?M"
    using lines by (simp add: getServicesMap_def is_ws_def Let_def one two three store_def map_has_def)
  note th = last_binding_wins [OF lines name namespace whole]
  have a: "distinct (map fst ?M)"
    using th [of "''checkout''" "''dev''"] by blast
  have winner: "[?L1, ?L2, ?L3] = [?L1] @ ?L2 # [?L3]
      \<and> line_step (Some ''team-a'') None (Some 0) [] ?L2 = Returns [(''checkout'', [''dev'' \<mapsto> ?D2])]
      \<and> serviceDetails [(''checkout'', [''dev'' \<mapsto> ?D2])] ''checkout'' ''dev'' = Some ?D2
      \<and> (\<forall>l'\<in>set [?L3]. \<forall>m2.
            line_step (Some ''team-a'') None (Some 0) [] l' = Returns m2
            \<longrightarrow> serviceDetails m2 ''checkout'' ''dev'' = None)"
    by (simp add: two three store_def map_has_def serviceDetails_def)
  have b: "serviceDetails ?M ''checkout'' ''dev'' = Some ?D2"
    using th [of "''checkout''" "''dev''", THEN conjunct2, THEN conjunct1,
        THEN spec, THEN spec, THEN spec, THEN spec, THEN spec, THEN mp, OF winner] .
  have nobody: "\<forall>l\<in>set [?L1, ?L2, ?L3]. \<forall>m2.
      line_step (Some ''team-a'') None (Some 0) [] l = Returns m2
      \<longrightarrow> serviceDetails m2 ''checkout'' ''stg'' = None"
    by (simp add: one two three store_def map_has_def serviceDetails_def)
  have c: "serviceDetails ?M ''checkout'' ''stg'' = None"
    using th [of "''checkout''" "''stg''", THEN conjunct2, THEN conjunct2, THEN conjunct1,
        THEN mp, OF nobody] .
  have again: "[?L1, ?L2, ?L3] = [?L1] @ ?L2 # [?L3]
      \<and> split_on CHR 0x0A (trim ?T') = ''NAME'' # [?L1] @ ?L2 # ?L2 # [?L3]"
    using lines' by simp
  have d: "getServicesMap ?T' (Some ''team-a'') = Returns ?M"
    using th [of "''checkout''" "''dev''", THEN conjunct2, THEN conjunct2, THEN conjunct2,
        THEN spec, THEN spec, THEN spec, THEN spec, THEN mp, OF again] .
  from whole a b c d show ?thesis by blast
qed

subsection \<open>The sorted list of service names\<close>

text \<open>
  Claim C9: for every map that \<^verbatim>\<open>getServicesMap\<close> returns, the list of service
  names that \<^verbatim>\<open>activate\<close> builds from it is strictly ascending in the
  lexicographic order of the code units: it is in ascending order and no name occurs
  twice. Its elements are the service names of the map.
\<close>

theorem servicesList_sorted:
  assumes "getServicesMap podsData namespace = Returns servicesMap"
  shows "sorted_wrt (<) (servicesList servicesMap) \<and> distinct (servicesList servicesMap)
    \<and> set (servicesList servicesMap) = fst ` set servicesMap"
  using getServicesMap_distinct [OF assms]
  by (simp add: servicesList_def strict_sorted_iff)

theorem servicesList_sorted_witness:
  "getServicesMap
      ''NAME\<newline>qa-team-a-payments-7f9c4d-x2k1p\<newline>dev-team-a-checkout-85b6d-q9wrt\<newline>stg-team-a-payments-5d7c8-aaaaa''
      (Some ''team-a'')
     = Returns [(''payments'',
          [''qa'' \<mapsto> \<lparr>details_id = ''7f9c4d-x2k1p'', details_namespace = Some ''team-a''\<rparr>,
           ''stg'' \<mapsto> \<lparr>details_id = ''5d7c8-aaaaa'', details_namespace = Some ''team-a''\<rparr>]),
         (''checkout'',
          [''dev'' \<mapsto> \<lparr>details_id = ''85b6d-q9wrt'', details_namespace = Some ''team-a''\<rparr>])]
   \<and> servicesList [(''payments'',
          [''qa'' \<mapsto> \<lparr>details_id = ''7f9c4d-x2k1p'', details_namespace = Some ''team-a''\<rparr>,
           ''stg'' \<mapsto> \<lparr>details_id = ''5d7c8-aaaaa'', details_namespace = Some ''team-a''\<rparr>]),
         (''checkout'',
          [''dev'' \<mapsto> \<lparr>details_id = ''85b6d-q9wrt'', details_namespace = Some ''team-a''\<rparr>])]
     = [''checkout'', ''payments'']
   \<and> sorted_wrt (<) [''checkout'', ''payments'']
   \<and> distinct [''checkout'', ''payments'']"
proof -
  let ?T = "''NAME\<newline>qa-team-a-payments-7f9c4d-x2k1p\<newline>dev-team-a-checkout-85b6d-q9wrt\<newline>stg-team-a-payments-5d7c8-aaaaa''"
  let ?M = "[(''payments'',
          [''qa'' \<mapsto> \<lparr>details_id = ''7f9c4d-x2k1p'', details_namespace = Some ''team-a''\<rparr>,
           ''stg'' \<mapsto> \<lparr>details_id = ''5d7c8-aaaaa'', details_namespace = Some ''team-a''\<rparr>]),
         (''checkout'',
          [''dev'' \<mapsto> \<lparr>details_id = ''85b6d-q9wrt'', details_namespace = Some ''team-a''\<rparr>])]"
  have whole: "getServicesMap ?T (Some ''team-a'') = Returns ?M"
    by (simp add: getServicesMap_def trim_def is_ws_def line_step_def row_step_def env_prefix_def
        strip_env_def startsWith_def strip_namespace_def replace_namespace_def
        regexp_syntax_char_def store_def map_has_def Let_def)
  have list: "servicesList ?M = [''checkout'', ''payments'']"
    by (simp add: servicesList_def less_eq_char_def)
  from servicesList_sorted [OF whole] whole list show ?thesis by simp
qed

subsection \<open>A fixed namespace and a NAMESPACE column\<close>

text \<open>
  Claim C5: take a table without a \<^verbatim>\<open>NAMESPACE\<close> column and read it with the
  fixed namespace \<open>N\<close>; take the same rows with a \<^verbatim>\<open>NAMESPACE\<close> column put in
  at any one index, every cell of it equal to \<open>N\<close>, and read them without a fixed
  namespace. The two calls have the same result.
\<close>

theorem fixed_namespace_same_map:
  assumes "cell N" and "hs \<noteq> []" and "\<forall>t\<in>set hs. cell t"
    and "''NAMESPACE'' \<notin> set hs" and "p \<le> length hs"
    and "\<forall>r\<in>set rows. r \<noteq> [] \<and> p \<le> length r \<and> (\<forall>t\<in>set r. cell t)"
  shows "getServicesMap (render (insert_at p ''NAMESPACE'' hs # map (insert_at p N) rows)) None
       = getServicesMap (render (hs # rows)) (Some N)"
proof -
  have ns: "cell ''NAMESPACE''" by (simp add: cell_def is_ws_def)
  have header: "insert_at p ''NAMESPACE'' hs \<noteq> []
      \<and> (\<forall>t\<in>set (insert_at p ''NAMESPACE'' hs). cell t)"
    using ns assms(3) by (rule insert_at_cells)
  have body: "\<forall>r\<in>set (map (insert_at p N) rows). r \<noteq> [] \<and> (\<forall>t\<in>set r. cell t)"
    using insert_at_cells [OF assms(1)] assms(6) by auto
  have "split_on CHR 0x0A (trim (render (insert_at p ''NAMESPACE'' hs # map (insert_at p N) rows)))
      = map render_line (insert_at p ''NAMESPACE'' hs # map (insert_at p N) rows)"
    using header body by (intro lines_of_render) auto
  moreover have "split_on CHR 0x0A (trim (render (hs # rows))) = map render_line (hs # rows)"
    using assms by (intro lines_of_render) auto
  moreover have "split_ws (render_line (insert_at p ''NAMESPACE'' hs)) = insert_at p ''NAMESPACE'' hs"
    using header by (intro split_ws_render_line) auto
  moreover have "split_ws (render_line hs) = hs"
    using assms by (intro split_ws_render_line) auto
  moreover have "indexOf (insert_at p ''NAMESPACE'' hs) ''NAMESPACE'' = Some p"
    using assms(4,5) by (rule indexOf_insert_at_same)
  moreover have "indexOf (insert_at p ''NAMESPACE'' hs) ''NAME''
      = map_option (shift p) (indexOf hs ''NAME'')"
    by (rule indexOf_insert_at_other) simp
  ultimately show ?thesis
    using fixed_namespace_lines [OF assms(1,6)]
    by (simp add: getServicesMap_def)
qed

theorem fixed_namespace_same_map_witness:
  "render (insert_at 0 ''NAMESPACE'' [''NAME'', ''READY'']
        # map (insert_at 0 ''team-a'') [[''dev-team-a-checkout-7f9c4d-x2k1p'', ''1/1'']])
     = ''NAMESPACE NAME READY\<newline>team-a dev-team-a-checkout-7f9c4d-x2k1p 1/1''
   \<and> render ([''NAME'', ''READY''] # [[''dev-team-a-checkout-7f9c4d-x2k1p'', ''1/1'']])
     = ''NAME READY\<newline>dev-team-a-checkout-7f9c4d-x2k1p 1/1''
   \<and> getServicesMap ''NAMESPACE NAME READY\<newline>team-a dev-team-a-checkout-7f9c4d-x2k1p 1/1'' None
     = getServicesMap ''NAME READY\<newline>dev-team-a-checkout-7f9c4d-x2k1p 1/1'' (Some ''team-a'')
   \<and> getServicesMap ''NAME READY\<newline>dev-team-a-checkout-7f9c4d-x2k1p 1/1'' (Some ''team-a'')
     = Returns [(''checkout'',
         [''dev'' \<mapsto> \<lparr>details_id = ''7f9c4d-x2k1p'', details_namespace = Some ''team-a''\<rparr>])]"
proof -
  have with_column: "render (insert_at 0 ''NAMESPACE'' [''NAME'', ''READY'']
        # map (insert_at 0 ''team-a'') [[''dev-team-a-checkout-7f9c4d-x2k1p'', ''1/1'']])
     = ''NAMESPACE NAME READY\<newline>team-a dev-team-a-checkout-7f9c4d-x2k1p 1/1''"
    by (simp add: render_def render_line_def insert_at_def)
  have without: "render ([''NAME'', ''READY''] # [[''dev-team-a-checkout-7f9c4d-x2k1p'', ''1/1'']])
     = ''NAME READY\<newline>dev-team-a-checkout-7f9c4d-x2k1p 1/1''"
    by (simp add: render_def render_line_def)
  have n: "cell ''team-a''"
    by (simp add: cell_def is_ws_def)
  have hs: "[''NAME'', ''READY''] \<noteq> []"
    by simp
  have hcells: "\<forall>t\<in>set [''NAME'', ''READY'']. cell t"
    by (simp add: cell_def is_ws_def)
  have fresh: "''NAMESPACE'' \<notin> set [''NAME'', ''READY'']"
    by simp
  have pos: "0 \<le> length [''NAME'', ''READY'']"
    by simp
  have rcells: "\<forall>r\<in>set [[''dev-team-a-checkout-7f9c4d-x2k1p'', ''1/1'']].
      r \<noteq> [] \<and> 0 \<le> length r \<and> (\<forall>t\<in>set r. cell t)"
    by (simp add: cell_def is_ws_def)
  have result: "getServicesMap ''NAME READY\<newline>dev-team-a-checkout-7f9c4d-x2k1p 1/1'' (Some ''team-a'')
     = Returns [(''checkout'',
         [''dev'' \<mapsto> \<lparr>details_id = ''7f9c4d-x2k1p'', details_namespace = Some ''team-a''\<rparr>])]"
    by (simp add: getServicesMap_def trim_def is_ws_def line_step_def row_step_def env_prefix_def
        strip_env_def startsWith_def strip_namespace_def replace_namespace_def
        regexp_syntax_char_def store_def map_has_def Let_def)
  from fixed_namespace_same_map [OF n hs hcells fresh pos rcells] with_column without result
  show ?thesis by simp
qed

subsection \<open>A namespace with a character of the pattern syntax\<close>

text \<open>
  Claim C3 says that the resolver never throws, for any name and any namespace. The
  namespace is pasted into the pattern of a regular expression without escaping; for
  the row with the namespace \<^verbatim>\<open>)\<close> and the name
  \<^verbatim>\<open>dev-checkout-7f9c4d-x2k1p\<close> the constructor of the regular expression throws a
  \<^verbatim>\<open>SyntaxError\<close>, and so does the call.
\<close>

theorem closing_parenthesis_namespace_throws:
  "at (split_ws '') dev-checkout-7f9c4d-x2k1p'') (Some 0) = Some '')''
   \<and> at (split_ws '') dev-checkout-7f9c4d-x2k1p'') (Some 1) = Some ''dev-checkout-7f9c4d-x2k1p''
   \<and> getServicesMap ''NAMESPACE NAME\<newline>) dev-checkout-7f9c4d-x2k1p'' None = Throws SyntaxError"
  by (simp add: getServicesMap_def trim_def is_ws_def line_step_def row_step_def env_prefix_def
        strip_env_def startsWith_def strip_namespace_def replace_namespace_def
        regexp_syntax_char_def)

text \<open>
  Claim C4 says that the namespace strip removes the namespace and a dash, and only
  from the very start of the name. For the namespace \<^verbatim>\<open>a.c\<close> the dot of the
  pattern matches the \<^verbatim>\<open>b\<close> of \<^verbatim>\<open>abc-svc-x1-y2\<close>: the name does not start with
  \<^verbatim>\<open>a.c-\<close>, and still its first four characters are removed, so the service is
  \<^verbatim>\<open>svc\<close> and not \<^verbatim>\<open>abc-svc\<close>.
\<close>

theorem dot_namespace_strips_other_text:
  "\<not> startsWith ''abc-svc-x1-y2'' ''a.c-''
   \<and> replace_namespace ''a.c'' ''abc-svc-x1-y2'' = Returns ''svc-x1-y2''
   \<and> getServicesMap ''NAME\<newline>dev-abc-svc-x1-y2'' (Some ''a.c'')
     = Returns [(''svc'',
         [''dev'' \<mapsto> \<lparr>details_id = ''x1-y2'', details_namespace = Some ''a.c''\<rparr>])]"
  by (simp add: getServicesMap_def trim_def is_ws_def line_step_def row_step_def env_prefix_def
        strip_env_def startsWith_def strip_namespace_def replace_namespace_def
        regexp_syntax_char_def store_def map_has_def Let_def)

end
